theory Spec2Isabelle
  imports Main
begin

section \<open>The data of \<open>delayed-async-task.ts\<close>\<close>

text \<open>
  JavaScript values as far as the class looks at them: \<open>undefined\<close>, the primitives, and
  objects known by their reference (\<open>JObj a\<close> is the object at address \<open>a\<close>, so two values
  are the identical object exactly when they are equal here).
\<close>

datatype jsval = Undefined | Null | JBool bool | JNum int | JStr string | JObj nat

text \<open>The string-literal union \<open>DelayedAsyncTaskStatus\<close>.\<close>

datatype DelayedAsyncTaskStatus =
    PENDING
  | EXECUTING
  | COMPLETED_SUCCESSFULLY
  | ABORTED_BEFORE_EXECUTION
  | FAILED_DUE_TO_UNCAUGHT_REJECTION

text \<open>
  A \<open>Promise<void>\<close> is a cell of the promise store, named by its index. It is unsettled,
  fulfilled, or rejected with a reason.
\<close>

datatype promise_state = Unsettled | Fulfilled | Rejected jsval

text \<open>
  What the one call \<open>this._task()\<close> does before control comes back to
  \<open>_handleTaskExecution\<close>. The callable may hold a reference to its own handle, so it
  first makes any number of calls of the two public methods; then it throws
  synchronously, or it returns a promise. The later settlement of that promise is an
  event of the run (\<open>TaskSettles\<close> below); a promise that never settles is a run without
  that event.
\<close>

datatype handle_call = CallTryAbort | CallAwaitCompletion

datatype task_outcome = Throws jsval | ReturnsPromise

datatype task_call = Task (sync_calls: "handle_call list") (outcome: task_outcome)

text \<open>Completion of a block of statements: it ends normally or by a throw.\<close>

datatype completion = Normal | Throw jsval

text \<open>
  The value of the expression \<open>await this._task()\<close> inside the \<open>try\<close>: the awaited promise
  was fulfilled, or the expression threw (the call threw synchronously, or the awaited
  promise was rejected and \<open>await\<close> rethrows its reason).
\<close>

datatype await_result = Resolved | Thrown jsval

text \<open>The private fields of the class, in the order of their declaration.\<close>

record DelayedAsyncTask =
  f_status :: DelayedAsyncTaskStatus
  f_timeout :: "nat option"
  f_uncaughtRejection :: jsval
  f_currentlyExecutingTaskPromise :: "nat option"
  f_task :: task_call

text \<open>
  The handle together with the part of the runtime it talks to: the timers that are armed
  (identifier and delay), the promise store, the suspended frame of
  \<open>_handleTaskExecution\<close> (its result promise, while it waits at the \<open>await\<close>), and two
  ghost fields: how many times \<open>_task\<close> was called, and the reasons with which the
  promise of \<open>_handleTaskExecution\<close> was rejected (what an awaiting caller or the
  unhandled-rejection channel would receive).
\<close>

record world =
  this :: DelayedAsyncTask
  timers :: "(nat \<times> int) list"
  next_timer :: nat
  promises :: "promise_state list"
  suspended :: "nat option"
  invocations :: nat
  rejections :: "jsval list"

section \<open>The runtime primitives the class calls\<close>

definition setTimeout :: "int \<Rightarrow> world \<Rightarrow> nat \<times> world" where
  "setTimeout delay w =
     (next_timer w,
      w\<lparr>timers := timers w @ [(next_timer w, delay)], next_timer := Suc (next_timer w)\<rparr>)"

text \<open>\<open>clearTimeout(undefined)\<close> does nothing; otherwise the timer is disarmed.\<close>

definition clearTimeout :: "nat option \<Rightarrow> world \<Rightarrow> world" where
  "clearTimeout t w =
     (case t of
        None \<Rightarrow> w
      | Some i \<Rightarrow> w\<lparr>timers := filter (\<lambda>(j, _). j \<noteq> i) (timers w)\<rparr>)"

text \<open>\<open>Promise.resolve()\<close>: a new promise, already fulfilled.\<close>

definition Promise_resolve :: "world \<Rightarrow> nat \<times> world" where
  "Promise_resolve w = (length (promises w), w\<lparr>promises := promises w @ [Fulfilled]\<rparr>)"

text \<open>
  The end of an async function: its result promise is fulfilled when the body ended
  normally and rejected with the thrown value otherwise.
\<close>

definition settle_async :: "nat \<Rightarrow> completion \<Rightarrow> world \<Rightarrow> world" where
  "settle_async p c w =
     (case c of
        Normal \<Rightarrow> w\<lparr>promises := (promises w)[p := Fulfilled]\<rparr>
      | Throw v \<Rightarrow> w\<lparr>promises := (promises w)[p := Rejected v],
                     rejections := rejections w @ [v]\<rparr>)"

section \<open>The class\<close>

subsection \<open>Getters\<close>

definition isPending :: "world \<Rightarrow> bool" where
  "isPending w = (f_status (this w) = PENDING)"

definition isExecuting :: "world \<Rightarrow> bool" where
  "isExecuting w = (f_status (this w) = EXECUTING)"

definition isAborted :: "world \<Rightarrow> bool" where
  "isAborted w = (f_status (this w) = ABORTED_BEFORE_EXECUTION)"

definition isCompleted :: "world \<Rightarrow> bool" where
  "isCompleted w = (f_status (this w) = COMPLETED_SUCCESSFULLY)"

definition isUncaughtRejectionOccurred :: "world \<Rightarrow> bool" where
  "isUncaughtRejectionOccurred w = (f_status (this w) = FAILED_DUE_TO_UNCAUGHT_REJECTION)"

definition uncaughtRejection :: "world \<Rightarrow> jsval" where
  "uncaughtRejection w = f_uncaughtRejection (this w)"

subsection \<open>The public methods\<close>

definition tryAbort :: "world \<Rightarrow> bool \<times> world" where
  "tryAbort w =
     (if f_status (this w) = PENDING then
        (let w1 = clearTimeout (f_timeout (this w)) w;
             w2 = w1\<lparr>this := (this w1)\<lparr>f_timeout := None\<rparr>\<rparr>;
             w3 = w2\<lparr>this := (this w2)\<lparr>f_status := ABORTED_BEFORE_EXECUTION\<rparr>\<rparr>
         in (True, w3))
      else (False, w))"

definition awaitCompletionIfCurrentlyExecuting :: "world \<Rightarrow> nat \<times> world" where
  "awaitCompletionIfCurrentlyExecuting w =
     (case f_currentlyExecutingTaskPromise (this w) of
        Some p \<Rightarrow> (p, w)
      | None \<Rightarrow> Promise_resolve w)"

text \<open>
  The calls the callable makes on its handle while it starts, one after the other. What
  they return goes to the callable.
\<close>

fun call_handle :: "world \<Rightarrow> handle_call \<Rightarrow> world" where
  "call_handle w CallTryAbort = snd (tryAbort w)"
| "call_handle w CallAwaitCompletion = snd (awaitCompletionIfCurrentlyExecuting w)"

fun sync_prefix :: "handle_call list \<Rightarrow> world \<Rightarrow> world" where
  "sync_prefix [] w = w"
| "sync_prefix (c # cs) w = sync_prefix cs (call_handle w c)"

subsection \<open>\<open>_handleTaskExecution\<close>\<close>

text \<open>
  The three blocks of the \<open>try\<close> statement. The \<open>try\<close> block is entered with the value of
  \<open>await this._task()\<close>; the assignments of the \<open>catch\<close> and \<open>finally\<close> blocks cannot throw.
\<close>

definition try_block :: "await_result \<Rightarrow> DelayedAsyncTask \<Rightarrow> completion \<times> DelayedAsyncTask" where
  "try_block r h =
     (case r of
        Resolved \<Rightarrow> (Normal, h\<lparr>f_status := COMPLETED_SUCCESSFULLY\<rparr>)
      | Thrown err \<Rightarrow> (Throw err, h))"

definition catch_block :: "jsval \<Rightarrow> DelayedAsyncTask \<Rightarrow> completion \<times> DelayedAsyncTask" where
  "catch_block err h =
     (Normal, h\<lparr>f_status := FAILED_DUE_TO_UNCAUGHT_REJECTION, f_uncaughtRejection := err\<rparr>)"

definition finally_block :: "DelayedAsyncTask \<Rightarrow> DelayedAsyncTask" where
  "finally_block h = h\<lparr>f_currentlyExecutingTaskPromise := None\<rparr>"

definition try_catch_finally :: "await_result \<Rightarrow> DelayedAsyncTask \<Rightarrow> completion \<times> DelayedAsyncTask" where
  "try_catch_finally r h =
     (let (c1, h1) = try_block r h;
          (c2, h2) = (case c1 of Normal \<Rightarrow> (Normal, h1) | Throw err \<Rightarrow> catch_block err h1)
      in (c2, finally_block h2))"

text \<open>
  The rest of the body once \<open>await this._task()\<close> has a value: the \<open>try\<close> statement runs
  and the result promise \<open>p\<close> of the async function is settled with its completion.
\<close>

definition handleTaskExecution_finish :: "nat \<Rightarrow> await_result \<Rightarrow> world \<Rightarrow> world" where
  "handleTaskExecution_finish p r w =
     (let (c, h) = try_catch_finally r (this w)
      in settle_async p c (w\<lparr>this := h\<rparr>))"

text \<open>
  The call of the async function, in three parts. First the result promise is created
  and the body runs up to the call \<open>this._task()\<close>. Then the callable runs until it
  throws or returns. When it has thrown, the body runs to its end within the call;
  when it has returned a promise, the frame is suspended at the \<open>await\<close>. In both cases
  the result promise is returned.
\<close>

definition handleTaskExecution_start :: "world \<Rightarrow> nat \<times> world" where
  "handleTaskExecution_start w =
     (let p = length (promises w);
          w1 = w\<lparr>promises := promises w @ [Unsettled]\<rparr>
      in (p, w1\<lparr>invocations := Suc (invocations w1)\<rparr>))"

definition task_returns :: "nat \<Rightarrow> world \<Rightarrow> world" where
  "task_returns p w =
     (case outcome (f_task (this w)) of
        Throws err \<Rightarrow> handleTaskExecution_finish p (Thrown err) w
      | ReturnsPromise \<Rightarrow> w\<lparr>suspended := Some p\<rparr>)"

definition handleTaskExecution :: "world \<Rightarrow> nat \<times> world" where
  "handleTaskExecution w =
     (let (p, w1) = handleTaskExecution_start w;
          w2 = sync_prefix (sync_calls (f_task (this w1))) w1
      in (p, task_returns p w2))"

subsection \<open>The constructor and its timer callback\<close>

text \<open>The two assignments of the callback that precede the call.\<close>

definition timer_callback_start :: "world \<Rightarrow> world" where
  "timer_callback_start w =
     (let w1 = w\<lparr>this := (this w)\<lparr>f_timeout := None\<rparr>\<rparr>
      in w1\<lparr>this := (this w1)\<lparr>f_status := EXECUTING\<rparr>\<rparr>)"

definition timer_callback :: "world \<Rightarrow> world" where
  "timer_callback w =
     (let w2 = timer_callback_start w;
          (p, w3) = handleTaskExecution w2
      in w3\<lparr>this := (this w3)\<lparr>f_currentlyExecutingTaskPromise := Some p\<rparr>\<rparr>)"

text \<open>
  \<open>new DelayedAsyncTask(task, delayTillExecutionMs)\<close> in a fresh runtime. The fields
  without initialiser start as \<open>undefined\<close>.
\<close>

definition construct :: "task_call \<Rightarrow> int \<Rightarrow> world" where
  "construct task delayTillExecutionMs =
     (let h = \<lparr>f_status = PENDING, f_timeout = None, f_uncaughtRejection = Undefined,
                f_currentlyExecutingTaskPromise = None, f_task = task\<rparr>;
          w = \<lparr>this = h, timers = [], next_timer = 1, promises = [], suspended = None,
                invocations = 0, rejections = []\<rparr>;
          (t, w1) = setTimeout delayTillExecutionMs w
      in w1\<lparr>this := (this w1)\<lparr>f_timeout := Some t\<rparr>\<rparr>)"

section \<open>Runs\<close>

text \<open>
  Each event is one job of the event loop, run to completion. Code outside the class
  runs between two events and, within the job of the timer, while the callable starts
  (\<open>task_entry\<close> below). The runtime fires a timer only while it is armed, and
  disarms it when it fires. \<open>TaskSettles r\<close> is the job that resumes the suspended frame of
  \<open>_handleTaskExecution\<close> after the promise returned by \<open>_task\<close> has settled; a promise
  settles once, so the event does nothing when no frame is suspended. The two other
  events are calls of the public methods by any caller.
\<close>

datatype event = TimerFires | TaskSettles await_result | TryAbort | AwaitCompletion

fun step :: "world \<Rightarrow> event \<Rightarrow> world" where
  "step w TimerFires =
     (case timers w of
        [] \<Rightarrow> w
      | t # ts \<Rightarrow> timer_callback (w\<lparr>timers := ts\<rparr>))"
| "step w (TaskSettles r) =
     (case suspended w of
        None \<Rightarrow> w
      | Some p \<Rightarrow> handleTaskExecution_finish p r (w\<lparr>suspended := None\<rparr>))"
| "step w TryAbort = snd (tryAbort w)"
| "step w AwaitCompletion = snd (awaitCompletionIfCurrentlyExecuting w)"

fun run :: "world \<Rightarrow> event list \<Rightarrow> world" where
  "run w [] = w"
| "run w (e # es) = run (step w e) es"

fun is_settle :: "event \<Rightarrow> bool" where
  "is_settle (TaskSettles r) = True"
| "is_settle e = False"

text \<open>
  The world in which the callable starts to run when the timer fires in \<open>w\<close>: the timer
  is disarmed, the callback has made its two assignments, and \<open>_handleTaskExecution\<close>
  has come to the call \<open>this._task()\<close>. After the calls \<open>cs\<close> of the callable the world is
  \<open>sync_prefix cs (task_entry w)\<close>.
\<close>

definition task_entry :: "world \<Rightarrow> world" where
  "task_entry w =
     snd (handleTaskExecution_start (timer_callback_start (w\<lparr>timers := tl (timers w)\<rparr>)))"

section \<open>What holds between two events\<close>

text \<open>
  The worlds a run can reach, status by status: which timer is armed, whether a frame is
  suspended, what the fields hold and how often \<open>_task\<close> was called. No promise of the
  store is rejected.
\<close>

definition consistent :: "world \<Rightarrow> bool" where
  "consistent w =
     (rejections w = [] \<and>
      (\<forall>i < length (promises w). \<forall>v. promises w ! i \<noteq> Rejected v) \<and>
      (case f_status (this w) of
         PENDING \<Rightarrow>
           (\<exists>t d. timers w = [(t, d)] \<and> f_timeout (this w) = Some t) \<and> suspended w = None \<and>
           f_currentlyExecutingTaskPromise (this w) = None \<and>
           f_uncaughtRejection (this w) = Undefined \<and> invocations w = 0
       | EXECUTING \<Rightarrow>
           timers w = [] \<and>
           (\<exists>p. suspended w = Some p \<and> f_currentlyExecutingTaskPromise (this w) = Some p \<and>
                p < length (promises w) \<and> promises w ! p = Unsettled) \<and>
           f_uncaughtRejection (this w) = Undefined \<and> invocations w = 1
       | COMPLETED_SUCCESSFULLY \<Rightarrow>
           timers w = [] \<and> suspended w = None \<and>
           f_currentlyExecutingTaskPromise (this w) = None \<and>
           f_uncaughtRejection (this w) = Undefined \<and> invocations w = 1
       | ABORTED_BEFORE_EXECUTION \<Rightarrow>
           timers w = [] \<and> suspended w = None \<and>
           f_currentlyExecutingTaskPromise (this w) = None \<and>
           f_uncaughtRejection (this w) = Undefined \<and> invocations w = 0
       | FAILED_DUE_TO_UNCAUGHT_REJECTION \<Rightarrow>
           timers w = [] \<and> suspended w = None \<and> invocations w = 1 \<and>
           (case f_currentlyExecutingTaskPromise (this w) of
              None \<Rightarrow> True
            | Some p \<Rightarrow> p < length (promises w) \<and> promises w ! p = Fulfilled)))"

text \<open>Where a status stands in the life of the handle.\<close>

fun stage :: "DelayedAsyncTaskStatus \<Rightarrow> nat" where
  "stage PENDING = 0"
| "stage EXECUTING = 1"
| "stage s = 2"

lemmas model_defs =
  setTimeout_def clearTimeout_def Promise_resolve_def settle_async_def
  try_block_def catch_block_def finally_block_def try_catch_finally_def
  handleTaskExecution_finish_def handleTaskExecution_start_def task_returns_def
  handleTaskExecution_def timer_callback_start_def timer_callback_def
  construct_def tryAbort_def awaitCompletionIfCurrentlyExecuting_def

lemmas getter_defs =
  isPending_def isExecuting_def isAborted_def isCompleted_def
  isUncaughtRejectionOccurred_def uncaughtRejection_def

text \<open>
  While the callable starts, the status is EXECUTING and no promise is stored yet:
  \<open>tryAbort\<close> does nothing, and every call of \<open>awaitCompletionIfCurrentlyExecuting\<close>
  makes a new fulfilled promise.
\<close>

lemma sync_prefix_window:
  "f_status (this w) = EXECUTING \<Longrightarrow> f_currentlyExecutingTaskPromise (this w) = None \<Longrightarrow>
     sync_prefix cs w =
       w\<lparr>promises := promises w @ replicate (count_list cs CallAwaitCompletion) Fulfilled\<rparr>"
proof (induction cs arbitrary: w)
  case Nil
  then show ?case by simp
next
  case (Cons c cs)
  show ?case
  proof (cases c)
    case CallTryAbort
    then show ?thesis using Cons by (simp add: tryAbort_def)
  next
    case CallAwaitCompletion
    let ?w = "w\<lparr>promises := promises w @ [Fulfilled]\<rparr>"
    have "sync_prefix cs ?w =
        ?w\<lparr>promises := promises ?w @ replicate (count_list cs CallAwaitCompletion) Fulfilled\<rparr>"
      using Cons.prems by (intro Cons.IH) simp_all
    then show ?thesis
      using CallAwaitCompletion Cons.prems
      by (simp add: awaitCompletionIfCurrentlyExecuting_def Promise_resolve_def)
  qed
qed

lemma sync_prefix_task: "f_task (this (sync_prefix cs w)) = f_task (this w)"
proof (induction cs arbitrary: w)
  case Nil
  then show ?case by simp
next
  case (Cons c cs)
  have "f_task (this (call_handle w c)) = f_task (this w)"
    by (cases c) (auto simp: model_defs Let_def split: option.splits)
  then show ?case using Cons.IH by simp
qed

lemma consistent_construct: "consistent (construct task d)"
  by (simp add: consistent_def model_defs)

lemma consistent_step: "consistent w \<Longrightarrow> consistent (step w e)"
  apply (cases e; cases "f_status (this w)")
  apply (auto simp: consistent_def model_defs sync_prefix_window sync_prefix_task Let_def nth_append nth_list_update nth_Cons' split: option.splits task_outcome.splits await_result.splits list.splits if_splits)
  done


lemma consistent_run: "consistent w \<Longrightarrow> consistent (run w es)"
  by (induction es arbitrary: w) (simp_all add: consistent_step)

lemma consistent_reachable: "consistent (run (construct task d) es)"
  by (simp add: consistent_run consistent_construct)

lemma run_append: "run w (es @ es') = run (run w es) es'"
  by (induction es arbitrary: w) simp_all

lemma step_status:
  "consistent w \<Longrightarrow> f_status (this (step w e)) = f_status (this w) \<or>
     (stage (f_status (this w)) < stage (f_status (this (step w e))))"
  apply (cases e; cases "f_status (this w)")
  apply (auto simp: consistent_def model_defs sync_prefix_window sync_prefix_task Let_def split: option.splits task_outcome.splits await_result.splits list.splits if_splits)
  done

lemma run_status:
  "consistent w \<Longrightarrow> f_status (this (run w es)) = f_status (this w) \<or>
     (stage (f_status (this w)) < stage (f_status (this (run w es))))"
proof (induction es arbitrary: w)
  case Nil
  then show ?case by simp
next
  case (Cons e es)
  have a: "consistent (step w e)" using Cons.prems by (rule consistent_step)
  from Cons.IH [OF a] step_status [OF Cons.prems, of e] show ?case
    by auto
qed

lemma stage_le_2: "stage s \<le> 2"
  by (cases s) simp_all

lemma terminal_run:
  assumes "consistent w" and "stage (f_status (this w)) = 2"
  shows "f_status (this (run w es)) = f_status (this w)"
proof -
  have "stage (f_status (this (run w es))) \<le> 2" by (rule stage_le_2)
  with run_status [OF assms(1), of es] assms(2) show ?thesis by auto
qed

lemma executing_idle:
  "consistent w \<Longrightarrow> f_status (this w) = EXECUTING \<Longrightarrow> \<not> is_settle e \<Longrightarrow> step w e = w"
  by (cases e) (auto simp: consistent_def model_defs)

lemma executing_idle_run:
  "consistent w \<Longrightarrow> f_status (this w) = EXECUTING \<Longrightarrow> \<forall>e \<in> set es. \<not> is_settle e \<Longrightarrow> run w es = w"
  by (induction es) (simp_all add: executing_idle)

lemma fulfilled_step:
  "consistent w \<Longrightarrow> p < length (promises w) \<Longrightarrow> promises w ! p = Fulfilled \<Longrightarrow>
     p < length (promises (step w e)) \<and> promises (step w e) ! p = Fulfilled"
  apply (cases e; cases "f_status (this w)")
  apply (auto simp: consistent_def model_defs sync_prefix_window sync_prefix_task Let_def nth_append nth_list_update split: option.splits task_outcome.splits await_result.splits list.splits if_splits)
  done

lemma fulfilled_run:
  "consistent w \<Longrightarrow> p < length (promises w) \<Longrightarrow> promises w ! p = Fulfilled \<Longrightarrow>
     p < length (promises (run w es)) \<and> promises (run w es) ! p = Fulfilled"
proof (induction es arbitrary: w)
  case Nil
  then show ?case by simp
next
  case (Cons e es)
  from fulfilled_step [OF Cons.prems, of e] consistent_step [OF Cons.prems(1), of e]
  show ?case using Cons.IH by simp
qed

lemma settle_executing:
  "consistent w \<Longrightarrow> f_status (this w) = EXECUTING \<Longrightarrow>
     f_currentlyExecutingTaskPromise (this w) = Some p \<Longrightarrow>
     promises (step w (TaskSettles r)) ! p = Fulfilled \<and>
     p < length (promises (step w (TaskSettles r))) \<and>
     f_currentlyExecutingTaskPromise (this (step w (TaskSettles r))) = None \<and>
     f_status (this (step w (TaskSettles r))) =
       (case r of Resolved \<Rightarrow> COMPLETED_SUCCESSFULLY | Thrown err \<Rightarrow> FAILED_DUE_TO_UNCAUGHT_REJECTION) \<and>
     f_uncaughtRejection (this (step w (TaskSettles r))) =
       (case r of Resolved \<Rightarrow> Undefined | Thrown err \<Rightarrow> err)"
  by (cases r) (auto simp: consistent_def model_defs)

lemma await_cases:
  "consistent w \<Longrightarrow> awaitCompletionIfCurrentlyExecuting w = (p, w') \<Longrightarrow>
     f_status (this w') = f_status (this w) \<and> p < length (promises w') \<and>
     (if f_status (this w) = EXECUTING
      then w' = w \<and> f_currentlyExecutingTaskPromise (this w) = Some p \<and> promises w ! p = Unsettled
      else promises w' ! p = Fulfilled)"
  apply (cases "f_status (this w)")
  apply (auto simp: consistent_def awaitCompletionIfCurrentlyExecuting_def Promise_resolve_def split: option.splits)
  done

lemma await_consistent:
  assumes "consistent w" and "awaitCompletionIfCurrentlyExecuting w = (p, w')"
  shows "consistent w'"
proof -
  have "w' = step w AwaitCompletion" using assms(2) by simp
  then show ?thesis using assms(1) by (simp only: consistent_step)
qed

lemma task_step: "f_task (this (step w e)) = f_task (this w)"
  by (cases e)
    (auto simp: model_defs sync_prefix_window sync_prefix_task Let_def split: option.splits task_outcome.splits await_result.splits list.splits)

lemma task_run: "f_task (this (run w es)) = f_task (this w)"
  by (induction es arbitrary: w) (simp_all add: task_step)

lemma task_construct: "f_task (this (construct task d)) = task"
  by (simp add: model_defs)

lemma invocations_step: "e \<noteq> TimerFires \<Longrightarrow> invocations (step w e) = invocations w"
  by (cases e)
    (auto simp: model_defs sync_prefix_window sync_prefix_task Let_def split: option.splits await_result.splits)

lemma invocations_run: "TimerFires \<notin> set es \<Longrightarrow> invocations (run w es) = invocations w"
  by (induction es arbitrary: w) (simp_all add: invocations_step [OF not_sym])

lemma invocations_le_1: "consistent w \<Longrightarrow> invocations w \<le> 1"
  by (cases "f_status (this w)") (simp_all add: consistent_def)

lemma fire_throwing_task:
  "consistent w \<Longrightarrow> f_status (this w) = PENDING \<Longrightarrow> outcome (f_task (this w)) = Throws err \<Longrightarrow>
     f_status (this (step w TimerFires)) = FAILED_DUE_TO_UNCAUGHT_REJECTION \<and>
     f_uncaughtRejection (this (step w TimerFires)) = err \<and>
     f_currentlyExecutingTaskPromise (this (step w TimerFires)) = Some (length (promises w)) \<and>
     promises (step w TimerFires) ! length (promises w) = Fulfilled"
  by (auto simp: consistent_def model_defs sync_prefix_window nth_append)

lemma failed_stale_idle:
  "consistent w \<Longrightarrow> f_status (this w) = FAILED_DUE_TO_UNCAUGHT_REJECTION \<Longrightarrow>
     f_currentlyExecutingTaskPromise (this w) = Some p \<Longrightarrow> step w e = w"
  by (cases e) (auto simp: consistent_def model_defs)

lemma failed_stale_idle_run:
  "consistent w \<Longrightarrow> f_status (this w) = FAILED_DUE_TO_UNCAUGHT_REJECTION \<Longrightarrow>
     f_currentlyExecutingTaskPromise (this w) = Some p \<Longrightarrow> run w es = w"
  by (induction es) (simp_all add: failed_stale_idle)

lemma failure_defined_step:
  "consistent w \<Longrightarrow> outcome (f_task (this w)) \<noteq> Throws Undefined \<Longrightarrow>
     e \<noteq> TaskSettles (Thrown Undefined) \<Longrightarrow>
     (f_status (this w) = FAILED_DUE_TO_UNCAUGHT_REJECTION \<longrightarrow> f_uncaughtRejection (this w) \<noteq> Undefined) \<Longrightarrow>
     f_status (this (step w e)) = FAILED_DUE_TO_UNCAUGHT_REJECTION \<Longrightarrow>
     f_uncaughtRejection (this (step w e)) \<noteq> Undefined"
  apply (cases e; cases "f_status (this w)")
  apply (auto simp: consistent_def model_defs sync_prefix_window sync_prefix_task Let_def split: option.splits task_outcome.splits await_result.splits list.splits if_splits)
  done

lemma failure_defined_run:
  "consistent w \<Longrightarrow> outcome (f_task (this w)) \<noteq> Throws Undefined \<Longrightarrow>
     TaskSettles (Thrown Undefined) \<notin> set es \<Longrightarrow>
     (f_status (this w) = FAILED_DUE_TO_UNCAUGHT_REJECTION \<longrightarrow> f_uncaughtRejection (this w) \<noteq> Undefined) \<Longrightarrow>
     f_status (this (run w es)) = FAILED_DUE_TO_UNCAUGHT_REJECTION \<Longrightarrow>
     f_uncaughtRejection (this (run w es)) \<noteq> Undefined"
proof (induction es arbitrary: w)
  case Nil
  then show ?case by simp
next
  case (Cons e es)
  have a: "consistent (step w e)" using Cons.prems(1) by (rule consistent_step)
  have b: "outcome (f_task (this (step w e))) \<noteq> Throws Undefined"
    using Cons.prems(2) by (simp add: task_step)
  have c: "e \<noteq> TaskSettles (Thrown Undefined)" "TaskSettles (Thrown Undefined) \<notin> set es"
    using Cons.prems(3) by auto
  have d: "f_status (this (step w e)) = FAILED_DUE_TO_UNCAUGHT_REJECTION \<longrightarrow>
      f_uncaughtRejection (this (step w e)) \<noteq> Undefined"
    using failure_defined_step [OF Cons.prems(1) Cons.prems(2) c(1) Cons.prems(4)] by blast
  show ?case
    using Cons.IH [OF a b c(2) d] Cons.prems(5) by simp
qed

lemma failure_only_when_failed:
  "consistent w \<Longrightarrow> f_uncaughtRejection (this w) \<noteq> Undefined \<Longrightarrow>
     f_status (this w) = FAILED_DUE_TO_UNCAUGHT_REJECTION"
  by (cases "f_status (this w)") (simp_all add: consistent_def)

lemma in_flight_step:
  "consistent w \<Longrightarrow>
     (f_status (this w) = EXECUTING \<and> f_currentlyExecutingTaskPromise (this w) = Some p) \<or>
     (p < length (promises w) \<and> promises w ! p = Fulfilled) \<Longrightarrow>
     (f_status (this (step w e)) = EXECUTING \<and> f_currentlyExecutingTaskPromise (this (step w e)) = Some p) \<or>
     (p < length (promises (step w e)) \<and> promises (step w e) ! p = Fulfilled)"
proof (elim disjE conjE)
  assume c: "consistent w" and ex: "f_status (this w) = EXECUTING"
    and cur: "f_currentlyExecutingTaskPromise (this w) = Some p"
  show ?thesis
  proof (cases "is_settle e")
    case True
    then obtain r where "e = TaskSettles r" by (cases e) simp_all
    then show ?thesis using settle_executing [OF c ex cur, of r] by simp
  next
    case False
    then have "step w e = w" using c ex by (simp add: executing_idle)
    then show ?thesis using ex cur by simp
  qed
next
  assume "consistent w" "p < length (promises w)" "promises w ! p = Fulfilled"
  then show ?thesis using fulfilled_step [of w p e] by simp
qed

lemma in_flight_run:
  "consistent w \<Longrightarrow>
     (f_status (this w) = EXECUTING \<and> f_currentlyExecutingTaskPromise (this w) = Some p) \<or>
     (p < length (promises w) \<and> promises w ! p = Fulfilled) \<Longrightarrow>
     (f_status (this (run w es)) = EXECUTING \<and> f_currentlyExecutingTaskPromise (this (run w es)) = Some p) \<or>
     (p < length (promises (run w es)) \<and> promises (run w es) ! p = Fulfilled)"
proof (induction es arbitrary: w)
  case Nil
  then show ?case by simp
next
  case (Cons e es)
  have a: "consistent (step w e)" using Cons.prems(1) by (rule consistent_step)
  from Cons.IH [OF a in_flight_step [OF Cons.prems, of e]] show ?case by simp
qed

lemma settled_after:
  assumes c: "consistent w"
    and s: "(f_status (this w) = EXECUTING \<and> f_currentlyExecutingTaskPromise (this w) = Some p) \<or>
     (p < length (promises w) \<and> promises w ! p = Fulfilled)"
  shows "promises (run w (es @ TaskSettles r # es')) ! p = Fulfilled"
proof -
  define w1 where "w1 = run w es"
  have c1: "consistent w1" unfolding w1_def using c by (rule consistent_run)
  have s1: "(f_status (this w1) = EXECUTING \<and> f_currentlyExecutingTaskPromise (this w1) = Some p) \<or>
     (p < length (promises w1) \<and> promises w1 ! p = Fulfilled)"
    unfolding w1_def using c s by (rule in_flight_run)
  have f: "p < length (promises (step w1 (TaskSettles r))) \<and>
      promises (step w1 (TaskSettles r)) ! p = Fulfilled"
    using s1
  proof
    assume "f_status (this w1) = EXECUTING \<and> f_currentlyExecutingTaskPromise (this w1) = Some p"
    then show ?thesis using settle_executing [OF c1, of p r] by simp
  next
    assume "p < length (promises w1) \<and> promises w1 ! p = Fulfilled"
    then show ?thesis using fulfilled_step [OF c1, of p "TaskSettles r"] by simp
  qed
  have c2: "consistent (step w1 (TaskSettles r))" using c1 by (rule consistent_step)
  have "promises (run (step w1 (TaskSettles r)) es') ! p = Fulfilled"
    using fulfilled_run [OF c2, of p es'] f by simp
  then show ?thesis by (simp add: run_append w1_def)
qed

lemma try_catch_finally_normal: "fst (try_catch_finally r h) = Normal"
  by (cases r) (simp_all add: try_catch_finally_def try_block_def catch_block_def)

lemma stored_promise_step:
  "consistent w \<Longrightarrow> outcome (f_task (this w)) = ReturnsPromise \<Longrightarrow>
     (f_currentlyExecutingTaskPromise (this w) \<noteq> None \<longrightarrow> f_status (this w) = EXECUTING) \<Longrightarrow>
     f_currentlyExecutingTaskPromise (this (step w e)) \<noteq> None \<Longrightarrow>
     f_status (this (step w e)) = EXECUTING"
  apply (cases e; cases "f_status (this w)")
  apply (auto simp: consistent_def model_defs sync_prefix_window sync_prefix_task Let_def split: option.splits await_result.splits list.splits if_splits)
  done

lemma stored_promise_run:
  "consistent w \<Longrightarrow> outcome (f_task (this w)) = ReturnsPromise \<Longrightarrow>
     (f_currentlyExecutingTaskPromise (this w) \<noteq> None \<longrightarrow> f_status (this w) = EXECUTING) \<Longrightarrow>
     f_currentlyExecutingTaskPromise (this (run w es)) \<noteq> None \<Longrightarrow>
     f_status (this (run w es)) = EXECUTING"
proof (induction es arbitrary: w)
  case Nil
  then show ?case by simp
next
  case (Cons e es)
  have a: "consistent (step w e)" using Cons.prems(1) by (rule consistent_step)
  have b: "outcome (f_task (this (step w e))) = ReturnsPromise"
    using Cons.prems(2) by (simp add: task_step)
  have d: "f_currentlyExecutingTaskPromise (this (step w e)) \<noteq> None \<longrightarrow>
      f_status (this (step w e)) = EXECUTING"
    using stored_promise_step [OF Cons.prems(1) Cons.prems(2) Cons.prems(3)] by blast
  show ?case
    using Cons.IH [OF a b d] Cons.prems(4) by simp
qed

text \<open>
  For a callable that returns a promise, between two events the field holds a promise
  exactly while the status is Executing.
\<close>

lemma stored_promise_iff_executing:
  "f_currentlyExecutingTaskPromise (this (run (construct (Task cs ReturnsPromise) d) es)) \<noteq> None
     \<longleftrightarrow> isExecuting (run (construct (Task cs ReturnsPromise) d) es)"
proof
  assume "f_currentlyExecutingTaskPromise (this (run (construct (Task cs ReturnsPromise) d) es)) \<noteq> None"
  with stored_promise_run [OF consistent_construct, of "Task cs ReturnsPromise" d es]
  show "isExecuting (run (construct (Task cs ReturnsPromise) d) es)"
    by (simp add: model_defs isExecuting_def)
next
  assume "isExecuting (run (construct (Task cs ReturnsPromise) d) es)"
  with consistent_reachable [of "Task cs ReturnsPromise" d es]
  show "f_currentlyExecutingTaskPromise (this (run (construct (Task cs ReturnsPromise) d) es)) \<noteq> None"
    by (auto simp: consistent_def isExecuting_def)
qed

text \<open>
  The job of the timer passes through \<open>task_entry\<close>: the worlds in which the callable
  makes its calls are \<open>sync_prefix cs (task_entry w)\<close>.
\<close>

lemma task_entry_window:
  "consistent w \<Longrightarrow> f_status (this w) = PENDING \<Longrightarrow>
     f_status (this (sync_prefix cs (task_entry w))) = EXECUTING \<and>
     f_currentlyExecutingTaskPromise (this (sync_prefix cs (task_entry w))) = None \<and>
     promises (sync_prefix cs (task_entry w)) =
       promises w @ Unsettled # replicate (count_list cs CallAwaitCompletion) Fulfilled"
  by (simp add: consistent_def task_entry_def handleTaskExecution_start_def
      timer_callback_start_def sync_prefix_window)

lemma fire_passes_task_entry:
  "timers w \<noteq> [] \<Longrightarrow>
     step w TimerFires =
       (let p = length (promises w);
            w3 = task_returns p (sync_prefix (sync_calls (f_task (this w))) (task_entry w))
        in w3\<lparr>this := (this w3)\<lparr>f_currentlyExecutingTaskPromise := Some p\<rparr>\<rparr>)"
  by (cases "timers w")
    (simp_all add: timer_callback_def handleTaskExecution_def handleTaskExecution_start_def
      timer_callback_start_def task_entry_def Let_def)

lemma fire_promises:
  "consistent w \<Longrightarrow> f_status (this w) = PENDING \<Longrightarrow>
     promises (step w TimerFires) =
       promises w @
       (case outcome (f_task (this w)) of Throws err \<Rightarrow> Fulfilled | ReturnsPromise \<Rightarrow> Unsettled)
       # replicate (count_list (sync_calls (f_task (this w))) CallAwaitCompletion) Fulfilled"
  by (auto simp: consistent_def model_defs sync_prefix_window sync_prefix_task list_update_append
      split: task_outcome.splits)

lemma window_await:
  assumes c: "consistent w" and p: "f_status (this w) = PENDING"
    and a: "awaitCompletionIfCurrentlyExecuting (sync_prefix cs (task_entry w)) = (q, w')"
  shows "q = Suc (length (promises w) + count_list cs CallAwaitCompletion)"
    and "q < length (promises w')" and "promises w' ! q = Fulfilled"
  using a task_entry_window [OF c p, of cs]
  by (auto simp: awaitCompletionIfCurrentlyExecuting_def Promise_resolve_def nth_append)

lemma window_await_later:
  assumes c: "consistent w" and p: "f_status (this w) = PENDING"
    and a: "awaitCompletionIfCurrentlyExecuting (sync_prefix cs (task_entry w)) = (q, w')"
    and s: "sync_calls (f_task (this w)) = cs @ CallAwaitCompletion # cs'"
  shows "q < length (promises (run w (TimerFires # es))) \<and>
     promises (run w (TimerFires # es)) ! q = Fulfilled"
proof -
  have q: "q = Suc (length (promises w) + count_list cs CallAwaitCompletion)"
    using c p a by (rule window_await(1))
  have "q < length (promises (step w TimerFires)) \<and> promises (step w TimerFires) ! q = Fulfilled"
    unfolding fire_promises [OF c p] q s by (simp add: nth_append nth_Cons')
  moreover have "consistent (step w TimerFires)" using c by (rule consistent_step)
  ultimately show ?thesis using fulfilled_run [of "step w TimerFires" q es] by simp
qed

section \<open>The claims\<close>





text \<open>
  C1. In a reachable world \<open>tryAbort\<close> returns true exactly when the status is Pending.
  Then the status becomes AbortedBeforeExecution and, whatever happens afterwards, the
  callable is never invoked. In every other status it returns false and changes nothing.
\<close>

theorem tryAbort_only_while_pending:
  "let w = run (construct task d) es;
       (aborted, w') = tryAbort w
   in (aborted \<longleftrightarrow> isPending w) \<and>
      (isPending w \<longrightarrow> isAborted w' \<and> (\<forall>es'. invocations (run w' es') = 0)) \<and>
      (\<not> isPending w \<longrightarrow> w' = w)"
proof -
  define w where "w = run (construct task d) es"
  obtain b w' where a: "tryAbort w = (b, w')"
    by (cases "tryAbort w")
  have wf: "consistent w" unfolding w_def by (rule consistent_reachable)
  have wf': "consistent w'"
    using consistent_step [OF wf, of TryAbort] a by simp
  have 1: "b \<longleftrightarrow> f_status (this w) = PENDING"
    using a by (auto simp: tryAbort_def Let_def split: if_splits)
  have 2: "w' = w" if "f_status (this w) \<noteq> PENDING"
    using a that by (simp add: tryAbort_def)
  have 3: "f_status (this w') = ABORTED_BEFORE_EXECUTION" if "f_status (this w) = PENDING"
    using a that by (auto simp: tryAbort_def clearTimeout_def Let_def split: option.splits)
  have 4: "invocations (run w' es') = 0" if p: "f_status (this w) = PENDING" for es'
  proof -
    have "f_status (this (run w' es')) = ABORTED_BEFORE_EXECUTION"
      using terminal_run [OF wf', of es'] 3 [OF p] by simp
    moreover have "consistent (run w' es')" using wf' by (rule consistent_run)
    ultimately show ?thesis by (simp add: consistent_def)
  qed
  show ?thesis
    unfolding w_def [symmetric] Let_def a
    using 1 2 3 4 by (auto simp: getter_defs)
qed

theorem tryAbort_only_while_pending_witness:
  "isPending (construct (Task [] ReturnsPromise) 100) \<and>
   fst (tryAbort (construct (Task [] ReturnsPromise) 100)) \<and>
   isAborted (snd (tryAbort (construct (Task [] ReturnsPromise) 100))) \<and>
   invocations (run (snd (tryAbort (construct (Task [] ReturnsPromise) 100)))
     [TimerFires, TaskSettles Resolved]) = 0 \<and>
   \<not> isPending (run (construct (Task [] ReturnsPromise) 100) [TimerFires]) \<and>
   tryAbort (run (construct (Task [] ReturnsPromise) 100) [TimerFires]) =
     (False, run (construct (Task [] ReturnsPromise) 100) [TimerFires])"
  using tryAbort_only_while_pending [of "Task [] ReturnsPromise" 100 "[]"]
    tryAbort_only_while_pending [of "Task [] ReturnsPromise" 100 "[TimerFires]"]
  by (simp add: model_defs getter_defs)

text \<open>
  C3. In a reachable world whose callable is running, a successful settlement makes the
  status CompletedSuccessfully and leaves \<open>uncaughtRejection\<close> undefined; a settlement
  with an error makes the status FailedWithUncaughtError and \<open>uncaughtRejection\<close> returns
  that very value. The same holds when the callable throws within its call.
\<close>

theorem settlement_sets_status_and_failure:
  "let w = run (construct task d) es
   in (isExecuting w \<longrightarrow>
         isCompleted (step w (TaskSettles Resolved)) \<and>
         uncaughtRejection (step w (TaskSettles Resolved)) = Undefined \<and>
         (\<forall>err. isUncaughtRejectionOccurred (step w (TaskSettles (Thrown err))) \<and>
                uncaughtRejection (step w (TaskSettles (Thrown err))) = err)) \<and>
      (isPending w \<longrightarrow> (\<forall>err. outcome task = Throws err \<longrightarrow>
         isUncaughtRejectionOccurred (step w TimerFires) \<and>
         uncaughtRejection (step w TimerFires) = err))"
proof -
  define w where "w = run (construct task d) es"
  have c: "consistent w" unfolding w_def by (rule consistent_reachable)
  have t: "f_task (this w) = task" unfolding w_def by (simp add: task_run task_construct)
  have 1: "isCompleted (step w (TaskSettles Resolved)) \<and>
         uncaughtRejection (step w (TaskSettles Resolved)) = Undefined \<and>
         (\<forall>err. isUncaughtRejectionOccurred (step w (TaskSettles (Thrown err))) \<and>
                uncaughtRejection (step w (TaskSettles (Thrown err))) = err)"
    if ex: "f_status (this w) = EXECUTING"
  proof -
    obtain p where p: "f_currentlyExecutingTaskPromise (this w) = Some p"
      using c ex by (auto simp: consistent_def)
    show ?thesis
      using settle_executing [OF c ex p, of Resolved]
        settle_executing [OF c ex p, of "Thrown err" for err]
      by (simp add: getter_defs)
  qed
  have 2: "isUncaughtRejectionOccurred (step w TimerFires) \<and>
         uncaughtRejection (step w TimerFires) = err"
    if "f_status (this w) = PENDING" "outcome task = Throws err" for err
    using fire_throwing_task [OF c that(1), of err] t that(2) by (simp add: getter_defs)
  show ?thesis
    unfolding w_def [symmetric] Let_def
    using 1 2 by (simp add: isExecuting_def isPending_def)
qed

theorem settlement_sets_status_and_failure_witness:
  "isExecuting (run (construct (Task [] ReturnsPromise) 100) [TimerFires]) \<and>
   isCompleted (run (construct (Task [] ReturnsPromise) 100) [TimerFires, TaskSettles Resolved]) \<and>
   uncaughtRejection (run (construct (Task [] ReturnsPromise) 100) [TimerFires, TaskSettles Resolved])
     = Undefined \<and>
   isUncaughtRejectionOccurred
     (run (construct (Task [] ReturnsPromise) 100) [TimerFires, TaskSettles (Thrown (JObj 7))]) \<and>
   uncaughtRejection
     (run (construct (Task [] ReturnsPromise) 100) [TimerFires, TaskSettles (Thrown (JObj 7))]) = JObj 7 \<and>
   isPending (construct (Task [] (Throws (JObj 7))) 100) \<and>
   isUncaughtRejectionOccurred (run (construct (Task [] (Throws (JObj 7))) 100) [TimerFires]) \<and>
   uncaughtRejection (run (construct (Task [] (Throws (JObj 7))) 100) [TimerFires]) = JObj 7"
  using settlement_sets_status_and_failure [of "Task [] ReturnsPromise" 100 "[TimerFires]"]
    settlement_sets_status_and_failure [of "Task [] (Throws (JObj 7))" 100 "[]"]
  by (simp add: model_defs getter_defs)

text \<open>
  C4. Whatever the callable does, the \<open>try\<close> statement of \<open>_handleTaskExecution\<close> ends
  normally, so in every reachable world no promise of the handle is rejected - in
  particular not the one \<open>awaitCompletionIfCurrentlyExecuting\<close> returns - and nothing
  was passed on as a rejection. An error of the callable, thrown within the call or
  delivered as a rejection, puts the handle in FailedWithUncaughtError.
\<close>

theorem callable_errors_are_contained:
  "let w = run (construct task d) es;
       (p, w') = awaitCompletionIfCurrentlyExecuting w
   in (\<forall>r h. fst (try_catch_finally r h) = Normal) \<and>
      rejections w = [] \<and>
      (\<forall>i < length (promises w). \<forall>v. promises w ! i \<noteq> Rejected v) \<and>
      p < length (promises w') \<and> (\<forall>v. promises w' ! p \<noteq> Rejected v) \<and>
      (isExecuting w \<longrightarrow> (\<forall>err. isUncaughtRejectionOccurred (step w (TaskSettles (Thrown err))))) \<and>
      (isPending w \<longrightarrow> (\<forall>err. outcome task = Throws err \<longrightarrow> isUncaughtRejectionOccurred (step w TimerFires)))"
proof -
  define w where "w = run (construct task d) es"
  obtain p w' where a: "awaitCompletionIfCurrentlyExecuting w = (p, w')"
    by (cases "awaitCompletionIfCurrentlyExecuting w")
  have c: "consistent w" unfolding w_def by (rule consistent_reachable)
  have c': "consistent w'" using c a by (rule await_consistent)
  have t: "f_task (this w) = task" unfolding w_def by (simp add: task_run task_construct)
  have 1: "rejections w = []" using c by (simp add: consistent_def)
  have 2: "\<forall>i < length (promises w). \<forall>v. promises w ! i \<noteq> Rejected v"
    using c by (simp add: consistent_def)
  have 3: "p < length (promises w')" using await_cases [OF c a] by simp
  have 4: "\<forall>v. promises w' ! p \<noteq> Rejected v"
    using c' 3 by (simp add: consistent_def)
  have 5: "isUncaughtRejectionOccurred (step w (TaskSettles (Thrown err)))"
    if ex: "f_status (this w) = EXECUTING" for err
  proof -
    obtain q where q: "f_currentlyExecutingTaskPromise (this w) = Some q"
      using c ex by (auto simp: consistent_def)
    show ?thesis
      using settle_executing [OF c ex q, of "Thrown err"] by (simp add: getter_defs)
  qed
  have 6: "isUncaughtRejectionOccurred (step w TimerFires)"
    if "f_status (this w) = PENDING" "outcome task = Throws err" for err
    using fire_throwing_task [OF c that(1), of err] t that(2) by (simp add: getter_defs)
  show ?thesis
    unfolding w_def [symmetric] Let_def a
    using 1 2 3 4 5 6 by (simp add: try_catch_finally_normal isExecuting_def isPending_def)
qed

theorem callable_errors_are_contained_witness:
  "rejections (run (construct (Task [] ReturnsPromise) 100) [TimerFires, TaskSettles (Thrown (JObj 7))]) = [] \<and>
   promises (run (construct (Task [] ReturnsPromise) 100) [TimerFires, TaskSettles (Thrown (JObj 7))]) =
     [Fulfilled] \<and>
   isExecuting (run (construct (Task [] ReturnsPromise) 100) [TimerFires]) \<and>
   isUncaughtRejectionOccurred
     (step (run (construct (Task [] ReturnsPromise) 100) [TimerFires]) (TaskSettles (Thrown (JObj 7)))) \<and>
   isPending (construct (Task [] (Throws (JObj 7))) 100) \<and>
   isUncaughtRejectionOccurred (step (construct (Task [] (Throws (JObj 7))) 100) TimerFires) \<and>
   rejections (step (construct (Task [] (Throws (JObj 7))) 100) TimerFires) = []"
  using callable_errors_are_contained [of "Task [] ReturnsPromise" 100 "[TimerFires]"]
    callable_errors_are_contained [of "Task [] (Throws (JObj 7))" 100 "[]"]
  by (simp add: model_defs getter_defs)

text \<open>
  C5, as the claim states it, fails: a callable that rejects with \<open>undefined\<close> leaves the
  handle in FailedWithUncaughtError with an \<open>uncaughtRejection\<close> that is \<open>undefined\<close>.
\<close>

theorem failure_value_iff_failed_counterexample:
  "\<not> (uncaughtRejection
         (run (construct (Task [] ReturnsPromise) 100) [TimerFires, TaskSettles (Thrown Undefined)])
         \<noteq> Undefined
       \<longleftrightarrow> isUncaughtRejectionOccurred
         (run (construct (Task [] ReturnsPromise) 100) [TimerFires, TaskSettles (Thrown Undefined)]))"
  by (simp add: model_defs getter_defs)

text \<open>
  C5, amended. In every reachable world an \<open>uncaughtRejection\<close> other than \<open>undefined\<close>
  is found only in status FailedWithUncaughtError; and when the callable neither throws
  nor rejects with \<open>undefined\<close>, the status is FailedWithUncaughtError exactly when
  \<open>uncaughtRejection\<close> is not \<open>undefined\<close>.
\<close>

theorem failure_value_iff_failed_unless_undefined:
  "let w = run (construct task d) es
   in (uncaughtRejection w \<noteq> Undefined \<longrightarrow> isUncaughtRejectionOccurred w) \<and>
      (outcome task \<noteq> Throws Undefined \<and> TaskSettles (Thrown Undefined) \<notin> set es \<longrightarrow>
         (uncaughtRejection w \<noteq> Undefined \<longleftrightarrow> isUncaughtRejectionOccurred w))"
proof -
  define w where "w = run (construct task d) es"
  have c: "consistent w" unfolding w_def by (rule consistent_reachable)
  have 1: "f_status (this w) = FAILED_DUE_TO_UNCAUGHT_REJECTION"
    if "f_uncaughtRejection (this w) \<noteq> Undefined"
    using c that by (rule failure_only_when_failed)
  have 2: "f_uncaughtRejection (this w) \<noteq> Undefined"
    if "outcome task \<noteq> Throws Undefined" "TaskSettles (Thrown Undefined) \<notin> set es"
      "f_status (this w) = FAILED_DUE_TO_UNCAUGHT_REJECTION"
    unfolding w_def
  proof (rule failure_defined_run)
    show "consistent (construct task d)" by (rule consistent_construct)
    show "outcome (f_task (this (construct task d))) \<noteq> Throws Undefined"
      using that(1) by (simp add: task_construct)
    show "TaskSettles (Thrown Undefined) \<notin> set es" by (rule that(2))
    show "f_status (this (construct task d)) = FAILED_DUE_TO_UNCAUGHT_REJECTION \<longrightarrow>
      f_uncaughtRejection (this (construct task d)) \<noteq> Undefined"
      by (simp add: model_defs)
    show "f_status (this (run (construct task d) es)) = FAILED_DUE_TO_UNCAUGHT_REJECTION"
      using that(3) by (simp add: w_def)
  qed
  show ?thesis
    unfolding w_def [symmetric] Let_def
    using 1 2 by (auto simp: getter_defs)
qed

theorem failure_value_iff_failed_unless_undefined_witness:
  "uncaughtRejection
     (run (construct (Task [] ReturnsPromise) 100) [TimerFires, TaskSettles (Thrown (JStr ''boom''))])
     \<noteq> Undefined \<and>
   isUncaughtRejectionOccurred
     (run (construct (Task [] ReturnsPromise) 100) [TimerFires, TaskSettles (Thrown (JStr ''boom''))]) \<and>
   outcome (Task [] ReturnsPromise) \<noteq> Throws Undefined \<and>
   TaskSettles (Thrown Undefined) \<notin> set [TimerFires, TaskSettles (Thrown (JStr ''boom''))]"
  using failure_value_iff_failed_unless_undefined
    [of "Task [] ReturnsPromise" 100 "[TimerFires, TaskSettles (Thrown (JStr ''boom''))]"]
  by (simp add: model_defs getter_defs)

text \<open>
  C6. Construction does not invoke the callable; over any sequence of events it is
  invoked at most once; and as long as the timer has not fired it has not been invoked.
\<close>

theorem callable_invoked_at_most_once:
  "invocations (construct task d) = 0 \<and>
   invocations (run (construct task d) es) \<le> 1 \<and>
   (TimerFires \<notin> set es \<longrightarrow> invocations (run (construct task d) es) = 0)"
proof -
  have 1: "invocations (construct task d) = 0" by (simp add: model_defs)
  have 2: "invocations (run (construct task d) es) \<le> 1"
    using consistent_reachable by (rule invocations_le_1)
  have 3: "invocations (run (construct task d) es) = 0" if "TimerFires \<notin> set es"
    using invocations_run [OF that, of "construct task d"] 1 by simp
  show ?thesis using 1 2 3 by simp
qed

theorem callable_invoked_at_most_once_witness:
  "TimerFires \<notin> set [AwaitCompletion, TaskSettles Resolved, AwaitCompletion] \<and>
   invocations (run (construct (Task [] ReturnsPromise) 100)
     [AwaitCompletion, TaskSettles Resolved, AwaitCompletion]) = 0 \<and>
   invocations (run (construct (Task [] ReturnsPromise) 100)
     [TimerFires, TimerFires, TaskSettles Resolved, TimerFires]) \<le> 1"
  using callable_invoked_at_most_once
    [of "Task [] ReturnsPromise" 100 "[AwaitCompletion, TaskSettles Resolved, AwaitCompletion]"]
    callable_invoked_at_most_once
    [of "Task [] ReturnsPromise" 100 "[TimerFires, TimerFires, TaskSettles Resolved, TimerFires]"]
  by (simp add: model_defs)

text \<open>
  C7. Once the status of a reachable world is CompletedSuccessfully,
  AbortedBeforeExecution or FailedWithUncaughtError, no sequence of events changes it;
  and a status that shows again later in a run was held all the time in between.
\<close>

theorem status_is_monotonic:
  "let w = run (construct task d) es
   in (isCompleted w \<or> isAborted w \<or> isUncaughtRejectionOccurred w \<longrightarrow>
         f_status (this (run w es')) = f_status (this w)) \<and>
      (f_status (this (run (run w es') es'')) = f_status (this w) \<longrightarrow>
         f_status (this (run w es')) = f_status (this w))"
proof -
  define w where "w = run (construct task d) es"
  have c: "consistent w" unfolding w_def by (rule consistent_reachable)
  have c': "consistent (run w es')" using c by (rule consistent_run)
  have 1: "f_status (this (run w es')) = f_status (this w)"
    if "isCompleted w \<or> isAborted w \<or> isUncaughtRejectionOccurred w"
  proof (rule terminal_run [OF c])
    show "stage (f_status (this w)) = 2" using that by (auto simp: getter_defs)
  qed
  have 2: "f_status (this (run w es')) = f_status (this w)"
    if "f_status (this (run (run w es') es'')) = f_status (this w)"
    using run_status [OF c, of es'] run_status [OF c', of es''] that by auto
  show ?thesis
    unfolding w_def [symmetric] Let_def using 1 2 by blast
qed

theorem status_is_monotonic_witness:
  "isCompleted (run (construct (Task [] ReturnsPromise) 100) [TimerFires, TaskSettles Resolved]) \<and>
   f_status (this (run (run (construct (Task [] ReturnsPromise) 100) [TimerFires, TaskSettles Resolved])
     [TryAbort, TimerFires, TaskSettles (Thrown Null)])) = COMPLETED_SUCCESSFULLY \<and>
   f_status (this (run (run (run (construct (Task [] ReturnsPromise) 100) [TimerFires, TaskSettles Resolved])
     [TryAbort, TimerFires, TaskSettles (Thrown Null)]) [AwaitCompletion])) = COMPLETED_SUCCESSFULLY"
  using status_is_monotonic [of "Task [] ReturnsPromise" 100 "[TimerFires, TaskSettles Resolved]"
      "[TryAbort, TimerFires, TaskSettles (Thrown Null)]" "[AwaitCompletion]"]
  by (simp add: model_defs getter_defs)

text \<open>
  C8 at a callable that throws within its call: the \<open>catch\<close> and \<open>finally\<close> blocks run
  before \<open>_handleTaskExecution\<close> returns, and the timer callback then stores the returned
  promise. From the firing of the timer on, whatever happens, the status is
  FailedWithUncaughtError and the field still holds that (fulfilled) promise.
\<close>

theorem stored_promise_after_synchronous_throw:
  "isUncaughtRejectionOccurred (run (construct (Task cs (Throws err)) d) (TimerFires # es)) \<and>
   \<not> isExecuting (run (construct (Task cs (Throws err)) d) (TimerFires # es)) \<and>
   f_currentlyExecutingTaskPromise (this (run (construct (Task cs (Throws err)) d) (TimerFires # es)))
     = Some 0 \<and>
   promises (run (construct (Task cs (Throws err)) d) (TimerFires # es)) ! 0 = Fulfilled"
proof -
  define w where "w = step (construct (Task cs (Throws err)) d) TimerFires"
  have c: "consistent w"
    unfolding w_def using consistent_construct by (rule consistent_step)
  have f: "f_status (this w) = FAILED_DUE_TO_UNCAUGHT_REJECTION"
    "f_currentlyExecutingTaskPromise (this w) = Some 0"
    "promises w ! 0 = Fulfilled"
    unfolding w_def by (simp_all add: model_defs sync_prefix_window)
  have "run w es = w" using c f(1) f(2) by (rule failed_stale_idle_run)
  then have "run (construct (Task cs (Throws err)) d) (TimerFires # es) = w"
    by (simp only: run.simps w_def)
  then show ?thesis using f by (simp add: getter_defs)
qed

text \<open>
  C9, as the claim states it, fails for a callable whose promise never settles: the
  promise returned by a call made while the callable runs is unsettled, and no sequence
  of events without a settlement of the callable ever settles it.
\<close>

theorem awaitCompletion_always_resolves_counterexample:
  "isExecuting (run (construct (Task [] ReturnsPromise) 100) [TimerFires]) \<and>
   awaitCompletionIfCurrentlyExecuting (run (construct (Task [] ReturnsPromise) 100) [TimerFires]) =
     (0, run (construct (Task [] ReturnsPromise) 100) [TimerFires]) \<and>
   \<not> (\<exists>es. (\<forall>e \<in> set es. \<not> is_settle e) \<and>
          promises (run (run (construct (Task [] ReturnsPromise) 100) [TimerFires]) es) ! 0 \<noteq> Unsettled)"
proof -
  define w where "w = run (construct (Task [] ReturnsPromise) 100) [TimerFires]"
  have c: "consistent w" unfolding w_def by (rule consistent_reachable)
  have f: "f_status (this w) = EXECUTING" "promises w ! 0 = Unsettled"
    "awaitCompletionIfCurrentlyExecuting w = (0, w)"
    unfolding w_def by (simp_all add: model_defs)
  have idle: "run w es = w" if "\<forall>e \<in> set es. \<not> is_settle e" for es
    using c f(1) that by (rule executing_idle_run)
  have "\<not> (\<exists>es. (\<forall>e \<in> set es. \<not> is_settle e) \<and> promises (run w es) ! 0 \<noteq> Unsettled)"
  proof
    assume "\<exists>es. (\<forall>e \<in> set es. \<not> is_settle e) \<and> promises (run w es) ! 0 \<noteq> Unsettled"
    then obtain es where es: "\<forall>e \<in> set es. \<not> is_settle e"
      and n: "promises (run w es) ! 0 \<noteq> Unsettled" by blast
    from idle [OF es] n f(2) show False by simp
  qed
  then show ?thesis
    unfolding w_def [symmetric] using f by (simp add: isExecuting_def)
qed

text \<open>
  C9, amended. Every call of \<open>awaitCompletionIfCurrentlyExecuting\<close> returns a promise
  that is never rejected. For a call between two jobs: when the callable is not running
  at the call, the promise is fulfilled from the start; when it is running, the promise
  is fulfilled from the settlement of the callable on. For a call the callable makes
  while it starts: the promise is fulfilled from the start, and it is still fulfilled
  after the job of the timer and after every later event.
\<close>

theorem awaitCompletion_resolves_once_settled:
  "let w = run (construct task d) es;
       (p, w') = awaitCompletionIfCurrentlyExecuting w
   in p < length (promises (run w' es')) \<and>
      (\<forall>v. promises (run w' es') ! p \<noteq> Rejected v) \<and>
      (\<not> isExecuting w \<longrightarrow> promises (run w' es') ! p = Fulfilled) \<and>
      (isExecuting w \<longrightarrow> promises (run w' (es' @ TaskSettles r # es'')) ! p = Fulfilled) \<and>
      (isPending w \<longrightarrow>
         (\<forall>cs. let (q, v) = awaitCompletionIfCurrentlyExecuting (sync_prefix cs (task_entry w))
               in q < length (promises v) \<and> promises v ! q = Fulfilled \<and>
                  (\<forall>cs'. sync_calls task = cs @ CallAwaitCompletion # cs' \<longrightarrow>
                     q < length (promises (run w (TimerFires # es'))) \<and>
                     promises (run w (TimerFires # es')) ! q = Fulfilled)))"
proof -
  define w where "w = run (construct task d) es"
  obtain p w' where a: "awaitCompletionIfCurrentlyExecuting w = (p, w')"
    by (cases "awaitCompletionIfCurrentlyExecuting w")
  have c: "consistent w" unfolding w_def by (rule consistent_reachable)
  have c': "consistent w'" using c a by (rule await_consistent)
  have c'': "consistent (run w' es')" using c' by (rule consistent_run)
  note k = await_cases [OF c a]
  have s: "(f_status (this w') = EXECUTING \<and> f_currentlyExecutingTaskPromise (this w') = Some p) \<or>
     (p < length (promises w') \<and> promises w' ! p = Fulfilled)"
    using k by (cases "f_status (this w) = EXECUTING") simp_all
  have 1: "p < length (promises (run w' es'))"
  proof -
    from in_flight_run [OF c' s, of es'] show ?thesis
    proof
      assume "f_status (this (run w' es')) = EXECUTING \<and>
        f_currentlyExecutingTaskPromise (this (run w' es')) = Some p"
      then show ?thesis using c'' by (auto simp: consistent_def)
    next
      assume "p < length (promises (run w' es')) \<and> promises (run w' es') ! p = Fulfilled"
      then show ?thesis by simp
    qed
  qed
  have 2: "\<forall>v. promises (run w' es') ! p \<noteq> Rejected v"
    using c'' 1 by (simp add: consistent_def)
  have 3: "promises (run w' es') ! p = Fulfilled" if "f_status (this w) \<noteq> EXECUTING"
    using fulfilled_run [OF c', of p es'] k that by simp
  have 4: "promises (run w' (es' @ TaskSettles r # es'')) ! p = Fulfilled"
    using c' s by (rule settled_after)
  have t: "f_task (this w) = task" unfolding w_def by (simp add: task_run task_construct)
  have 5: "let (q, v) = awaitCompletionIfCurrentlyExecuting (sync_prefix cs (task_entry w))
       in q < length (promises v) \<and> promises v ! q = Fulfilled \<and>
          (\<forall>cs'. sync_calls task = cs @ CallAwaitCompletion # cs' \<longrightarrow>
             q < length (promises (run w (TimerFires # es'))) \<and>
             promises (run w (TimerFires # es')) ! q = Fulfilled)"
    if pe: "f_status (this w) = PENDING" for cs
  proof -
    obtain q v where b: "awaitCompletionIfCurrentlyExecuting (sync_prefix cs (task_entry w)) = (q, v)"
      by (cases "awaitCompletionIfCurrentlyExecuting (sync_prefix cs (task_entry w))")
    have "q < length (promises (run w (TimerFires # es'))) \<and>
        promises (run w (TimerFires # es')) ! q = Fulfilled"
      if "sync_calls task = cs @ CallAwaitCompletion # cs'" for cs'
      using c pe b
    proof (rule window_await_later)
      show "sync_calls (f_task (this w)) = cs @ CallAwaitCompletion # cs'"
        using that t by simp
    qed
    then show ?thesis
      unfolding b Let_def prod.case using window_await(2,3) [OF c pe b] by blast
  qed
  show ?thesis
    unfolding w_def [symmetric] Let_def a
    using 1 2 3 4 5 by (simp add: isExecuting_def isPending_def Let_def)
qed

theorem awaitCompletion_resolves_once_settled_witness:
  "isExecuting (run (construct (Task [] ReturnsPromise) 100) [TimerFires]) \<and>
   awaitCompletionIfCurrentlyExecuting (run (construct (Task [] ReturnsPromise) 100) [TimerFires]) =
     (0, run (construct (Task [] ReturnsPromise) 100) [TimerFires]) \<and>
   promises (run (run (construct (Task [] ReturnsPromise) 100) [TimerFires])
     ([TryAbort] @ TaskSettles (Thrown Null) # [AwaitCompletion])) ! 0 = Fulfilled \<and>
   \<not> isExecuting (construct (Task [] ReturnsPromise) 100) \<and>
   awaitCompletionIfCurrentlyExecuting (construct (Task [] ReturnsPromise) 100) =
     (0, (construct (Task [] ReturnsPromise) 100)\<lparr>promises := [Fulfilled]\<rparr>) \<and>
   promises (run ((construct (Task [] ReturnsPromise) 100)\<lparr>promises := [Fulfilled]\<rparr>) [TimerFires]) ! 0
     = Fulfilled \<and>
   isPending (construct (Task [CallAwaitCompletion] ReturnsPromise) 100) \<and>
   sync_calls (Task [CallAwaitCompletion] ReturnsPromise) = [] @ CallAwaitCompletion # [] \<and>
   fst (awaitCompletionIfCurrentlyExecuting (sync_prefix []
     (task_entry (construct (Task [CallAwaitCompletion] ReturnsPromise) 100)))) = 1 \<and>
   promises (run (construct (Task [CallAwaitCompletion] ReturnsPromise) 100)
     (TimerFires # [TaskSettles Resolved])) ! 1 = Fulfilled"
  using awaitCompletion_resolves_once_settled [of "Task [] ReturnsPromise" 100 "[TimerFires]" "[TryAbort]"
      "Thrown Null" "[AwaitCompletion]"]
    awaitCompletion_resolves_once_settled [of "Task [] ReturnsPromise" 100 "[]" "[TimerFires]"]
    awaitCompletion_resolves_once_settled
      [of "Task [CallAwaitCompletion] ReturnsPromise" 100 "[]" "[TaskSettles Resolved]"]
  by (simp add: model_defs task_entry_def getter_defs)

text \<open>
  C10. When the callable fails with the value \<open>undefined\<close>, by a rejection or by a throw
  within its call, \<open>isUncaughtRejectionOccurred\<close> is true and \<open>uncaughtRejection\<close> returns
  \<open>undefined\<close>: what it returned before the failure, what it returns after a successful
  settlement, and what it returns on a new handle.
\<close>

theorem undefined_failure_looks_like_none:
  "let w = run (construct task d) es
   in (isExecuting w \<longrightarrow>
         isUncaughtRejectionOccurred (step w (TaskSettles (Thrown Undefined))) \<and>
         uncaughtRejection (step w (TaskSettles (Thrown Undefined))) = Undefined \<and>
         uncaughtRejection (step w (TaskSettles Resolved)) = Undefined \<and>
         \<not> isUncaughtRejectionOccurred (step w (TaskSettles Resolved)) \<and>
         uncaughtRejection w = Undefined) \<and>
      (isPending w \<and> outcome task = Throws Undefined \<longrightarrow>
         isUncaughtRejectionOccurred (step w TimerFires) \<and>
         uncaughtRejection (step w TimerFires) = Undefined \<and>
         uncaughtRejection w = Undefined) \<and>
      uncaughtRejection (construct task d) = Undefined"
proof -
  define w where "w = run (construct task d) es"
  have c: "consistent w" unfolding w_def by (rule consistent_reachable)
  have t: "f_task (this w) = task" unfolding w_def by (simp add: task_run task_construct)
  have 1: "isUncaughtRejectionOccurred (step w (TaskSettles (Thrown Undefined))) \<and>
         uncaughtRejection (step w (TaskSettles (Thrown Undefined))) = Undefined \<and>
         uncaughtRejection (step w (TaskSettles Resolved)) = Undefined \<and>
         \<not> isUncaughtRejectionOccurred (step w (TaskSettles Resolved)) \<and>
         uncaughtRejection w = Undefined"
    if ex: "f_status (this w) = EXECUTING"
  proof -
    obtain p where p: "f_currentlyExecutingTaskPromise (this w) = Some p"
      using c ex by (auto simp: consistent_def)
    have "f_uncaughtRejection (this w) = Undefined"
      using c ex by (simp add: consistent_def)
    then show ?thesis
      using settle_executing [OF c ex p, of Resolved]
        settle_executing [OF c ex p, of "Thrown Undefined"]
      by (simp add: getter_defs)
  qed
  have 2: "isUncaughtRejectionOccurred (step w TimerFires) \<and>
         uncaughtRejection (step w TimerFires) = Undefined \<and>
         uncaughtRejection w = Undefined"
    if pe: "f_status (this w) = PENDING" and th: "outcome task = Throws Undefined"
  proof -
    have "f_uncaughtRejection (this w) = Undefined"
      using c pe by (simp add: consistent_def)
    then show ?thesis
      using fire_throwing_task [OF c pe, of Undefined] t th by (simp add: getter_defs)
  qed
  have 3: "uncaughtRejection (construct task d) = Undefined"
    by (simp add: model_defs getter_defs)
  show ?thesis
    unfolding w_def [symmetric] Let_def
    using 1 2 3 by (simp add: isExecuting_def isPending_def)
qed

theorem undefined_failure_looks_like_none_witness:
  "isExecuting (run (construct (Task [] ReturnsPromise) 100) [TimerFires]) \<and>
   isUncaughtRejectionOccurred
     (run (construct (Task [] ReturnsPromise) 100) [TimerFires, TaskSettles (Thrown Undefined)]) \<and>
   uncaughtRejection
     (run (construct (Task [] ReturnsPromise) 100) [TimerFires, TaskSettles (Thrown Undefined)]) = Undefined \<and>
   isPending (construct (Task [] (Throws Undefined)) 100) \<and>
   isUncaughtRejectionOccurred (step (construct (Task [] (Throws Undefined)) 100) TimerFires) \<and>
   uncaughtRejection (step (construct (Task [] (Throws Undefined)) 100) TimerFires) = Undefined"
  using undefined_failure_looks_like_none [of "Task [] ReturnsPromise" 100 "[TimerFires]"]
    undefined_failure_looks_like_none [of "Task [] (Throws Undefined)" 100 "[]"]
  by (simp add: model_defs getter_defs)

end
